theory Spec2Isabelle
  imports Complex_Main "HOL-Library.Multiset"
begin

section \<open>Python values and errors\<close>

text \<open>
  The notebook \<^verbatim>\<open>Exercise-GOP-QAOA.ipynb\<close> reports every sampled candidate as a dict
  with string keys and values of mixed type. A value is an integer array (the result of
  \<^verbatim>\<open>np.asarray\<close>), a number or a boolean. Python floats are idealised as reals.
\<close>

datatype pyval = Arr "int list" | Num real | Bool bool

datatype py_error = ValueError | ZeroDivisionError | KeyError | TypeError
  | AttributeError | LengthMismatchError

type_synonym sol = "string \<rightharpoonup> pyval"

section \<open>The optimisation-history callback\<close>

text \<open>
  \<^verbatim>\<open>
  counts = []
  values = []
  def store_intermediate_result(eval_count, parameters, mean, std):
      counts.append(eval_count)
      values.append(mean+offset)
  \<close>
  The two module-level lists are the state (fields \<open>hist_counts\<close> and \<open>hist_values\<close>); \<^verbatim>\<open>offset\<close> is the module-level constant
  returned by \<^verbatim>\<open>qp.to_ising()\<close> and is a parameter of the model.
\<close>

record history =
  hist_counts :: "int list"
  hist_values :: "real list"

definition history_init :: history where
  "history_init = \<lparr>hist_counts = [], hist_values = []\<rparr>"

definition store_intermediate_result ::
  "real \<Rightarrow> int \<Rightarrow> real list \<Rightarrow> real \<Rightarrow> real \<Rightarrow> history \<Rightarrow> history" where
  "store_intermediate_result offset eval_count parameters mean std h =
     h\<lparr>hist_counts := hist_counts h @ [eval_count],
       hist_values := hist_values h @ [mean + offset]\<rparr>"

text \<open>A sequence of invocations, as the optimiser makes them one after the other.\<close>

fun run_callbacks :: "real \<Rightarrow> (int \<times> real list \<times> real \<times> real) list \<Rightarrow> history \<Rightarrow> history" where
  "run_callbacks offset [] h = h"
| "run_callbacks offset ((eval_count, parameters, mean, std) # rest) h =
     run_callbacks offset rest (store_intermediate_result offset eval_count parameters mean std h)"

section \<open>Sampling: from measurement counts to candidate dicts\<close>

text \<open>
  \<^verbatim>\<open>
  counts = job.result().get_counts()
  sols = []
  for s, p in counts.items():
      x = np.asarray([int(y) for y in reversed(list(s))])
      obj = qp.objective.evaluate(x)
      sols.append({"x": x, "prob": p / n_shots, "obj": obj, "feas": model.is_feasible(x)})
  return sols
  \<close>
  The circuit execution is outside the repository: its result, the counts dict, is an
  argument of the model, an association list in the dict's iteration order. The objective
  \<^verbatim>\<open>qp.objective.evaluate\<close> (Qiskit) and \<^verbatim>\<open>model.is_feasible\<close> are arguments too,
  functions that return a value on every vector. The shot number is a Python integer.
\<close>

text \<open>Python's \<^verbatim>\<open>int(y)\<close> on a one-character string: a decimal digit or \<^verbatim>\<open>ValueError\<close>.\<close>

definition int_of_char :: "char \<Rightarrow> py_error + int" where
  "int_of_char y =
     (if y = CHR ''0'' then Inr 0 else if y = CHR ''1'' then Inr 1
      else if y = CHR ''2'' then Inr 2 else if y = CHR ''3'' then Inr 3
      else if y = CHR ''4'' then Inr 4 else if y = CHR ''5'' then Inr 5
      else if y = CHR ''6'' then Inr 6 else if y = CHR ''7'' then Inr 7
      else if y = CHR ''8'' then Inr 8 else if y = CHR ''9'' then Inr 9
      else Inl ValueError)"

text \<open>A list comprehension whose element expression may raise: the first failure wins.\<close>

fun map_err :: "('a \<Rightarrow> py_error + 'b) \<Rightarrow> 'a list \<Rightarrow> py_error + 'b list" where
  "map_err f [] = Inr []"
| "map_err f (a # as) =
     (case f a of Inl e \<Rightarrow> Inl e
      | Inr b \<Rightarrow> (case map_err f as of Inl e \<Rightarrow> Inl e | Inr bs \<Rightarrow> Inr (b # bs)))"

text \<open>\<^verbatim>\<open>[int(y) for y in reversed(list(s))]\<close>\<close>

definition reversed_bits :: "string \<Rightarrow> py_error + int list" where
  "reversed_bits s = map_err int_of_char (rev s)"

definition make_sol :: "int list \<Rightarrow> real \<Rightarrow> real \<Rightarrow> bool \<Rightarrow> sol" where
  "make_sol x prob obj feas =
     [''x'' \<mapsto> Arr x, ''prob'' \<mapsto> Num prob, ''obj'' \<mapsto> Num obj, ''feas'' \<mapsto> Bool feas]"

text \<open>
  The loop over \<^verbatim>\<open>counts.items()\<close>, with the list \<^verbatim>\<open>sols\<close> as accumulator. The division
  \<^verbatim>\<open>p / n_shots\<close> is Python's true division and raises on a zero divisor.
\<close>

fun sampling_loop ::
  "(int list \<Rightarrow> real) \<Rightarrow> (int list \<Rightarrow> bool) \<Rightarrow> int \<Rightarrow> (string \<times> nat) list \<Rightarrow> sol list
     \<Rightarrow> py_error + sol list" where
  "sampling_loop evaluate is_feas n_shots [] sols = Inr sols"
| "sampling_loop evaluate is_feas n_shots ((s, p) # items) sols =
     (case reversed_bits s of
        Inl e \<Rightarrow> Inl e
      | Inr x \<Rightarrow>
          (if n_shots = 0 then Inl ZeroDivisionError
           else sampling_loop evaluate is_feas n_shots items
                  (sols @ [make_sol x (real p / real_of_int n_shots) (evaluate x) (is_feas x)])))"

definition sampling ::
  "(int list \<Rightarrow> real) \<Rightarrow> (int list \<Rightarrow> bool) \<Rightarrow> int \<Rightarrow> (string \<times> nat) list
     \<Rightarrow> py_error + sol list" where
  "sampling evaluate is_feas n_shots counts = sampling_loop evaluate is_feas n_shots counts []"

text \<open>
  The bit convention. A measurement string is written most significant bit first: the
  character at position \<open>j\<close> of a string of length \<open>n\<close> is bit \<open>n - 1 - j\<close> of the
  integer \<open>msb_value s\<close>. The assignment a string denotes lists the bits of that integer
  from bit 0 upwards.
\<close>

definition digit_of :: "char \<Rightarrow> int" where
  "digit_of y = (if y = CHR ''1'' then 1 else 0)"

definition msb_value :: "string \<Rightarrow> int" where
  "msb_value s = foldl (\<lambda>a y. 2 * a + digit_of y) 0 s"

definition bits_lsb :: "nat \<Rightarrow> int \<Rightarrow> int list" where
  "bits_lsb n k = map (\<lambda>i. if bit k i then 1 else 0) [0..<n]"

definition denoted_assignment :: "string \<Rightarrow> int list" where
  "denoted_assignment s = bits_lsb (length s) (msb_value s)"

definition binary_string :: "string \<Rightarrow> bool" where
  "binary_string s = list_all (\<lambda>y. y = CHR ''0'' \<or> y = CHR ''1'') s"

text \<open>
  Modelled from the spec: the index of the binary variable "pot \<open>i\<close> is planted with
  species \<open>s\<close>" (the class \<^verbatim>\<open>GardenOptimizationProblem\<close> that numbers the variables is not
  among the sources): index = pot_index * num_species + species_index.
\<close>

definition var_index :: "nat \<Rightarrow> nat \<Rightarrow> nat \<Rightarrow> nat" where
  "var_index num_species pot_index species_index = pot_index * num_species + species_index"

section \<open>Ranking by objective\<close>

text \<open>
  \<^verbatim>\<open>lowest_obj_solutions = sorted(sols, key=lambda kv: kv["obj"])\<close>

  \<^verbatim>\<open>sorted\<close> first computes the key of every element, in order (a missing key raises
  \<^verbatim>\<open>KeyError\<close>), then sorts the elements by their keys with a stable sort and returns a
  new list. Booleans compare as the numbers 0 and 1; an array is not a scalar key.
\<close>

definition getitem :: "string \<Rightarrow> sol \<Rightarrow> py_error + pyval" where
  "getitem k d = (case d k of None \<Rightarrow> Inl KeyError | Some v \<Rightarrow> Inr v)"

definition obj_key :: "sol \<Rightarrow> py_error + real" where
  "obj_key kv =
     (case getitem ''obj'' kv of
        Inl e \<Rightarrow> Inl e
      | Inr (Num r) \<Rightarrow> Inr r
      | Inr (Bool b) \<Rightarrow> Inr (if b then 1 else 0)
      | Inr (Arr a) \<Rightarrow> Inl TypeError)"

definition py_sorted :: "('a \<Rightarrow> py_error + real) \<Rightarrow> 'a list \<Rightarrow> py_error + 'a list" where
  "py_sorted key xs =
     (case map_err key xs of
        Inl e \<Rightarrow> Inl e
      | Inr ks \<Rightarrow> Inr (map snd (sort_key fst (zip ks xs))))"

definition lowest_obj_solutions :: "sol list \<Rightarrow> py_error + sol list" where
  "lowest_obj_solutions sols = py_sorted obj_key sols"

text \<open>The objective of a candidate whose \<^verbatim>\<open>"obj"\<close> entry is a number.\<close>

definition obj_of :: "sol \<Rightarrow> real" where
  "obj_of kv = (case obj_key kv of Inr r \<Rightarrow> r | Inl e \<Rightarrow> 0)"


text \<open>Sample parameters for evaluating the pipeline on concrete inputs.\<close>

definition ones_objective :: "int list \<Rightarrow> real" where
  "ones_objective x = real_of_int (sum_list x)"

definition single_one :: "int list \<Rightarrow> bool" where
  "single_one x = (sum_list x = 1)"

section \<open>Plotting the solutions\<close>

text \<open>
  \<^verbatim>\<open>
  def plot_solutions(dict_sols, exact, show_feasible=False, sort_obj=True):
      fig, ax = plt.subplots(1, 2, figsize=(11, 5))
      for label, sol in dict_sols.items():
          if sort_obj:
              sol = sorted(sol, key=lambda d: d["obj"])
          x = [s["obj"] for s in sol]
          y = [s["prob"] for s in sol]
          z = [s["feas"] for s in sol]
          ax[0].plot(x)
          ...
          ax[1].bar(x, y, width=0.5, label=label)
          if show_feasible:
              x_feas, y_feas = [], []
              for _x, _y, _z in zip(x, y, z):
                  if _z:
                      x_feas.append(_x)
                      y_feas.append(_y)
              ax[1].bar(x_feas, y_feas, width=1.0, label=label + " (feas)", ...)
          ...
      ax[0].axhline(y=exact, ls=":", color='k')
      ax[1].axvline(x=exact, ls=":", color='k', label='exact')
      plt.legend()
      plt.show()
  \<close>
  The argument \<^verbatim>\<open>dict_sols\<close> and the lists it holds are objects shared with the caller,
  so the model has an explicit store: a list of objects, an object's address being its
  position. Allocation appends to the store. A dict object maps labels to the addresses
  of list objects. The drawing calls are recorded in the order they are made; axis
  labels and styling are left out.
\<close>

datatype pyobj = ListObj "sol list" | DictObj "(string \<times> nat) list"

type_synonym store = "pyobj list"

datatype draw =
    Plot "pyval list"
  | Bar "pyval list" "pyval list" string
  | AxHLine real
  | AxVLine real
  | Legend
  | Show

text \<open>
  Iterating an object as a sequence of candidate dicts. A list yields its elements. A dict
  yields its keys, which are strings, and subscripting a string with \<^verbatim>\<open>"obj"\<close> is a
  \<^verbatim>\<open>TypeError\<close>; an empty dict yields nothing.
\<close>

definition iterate :: "pyobj \<Rightarrow> py_error + sol list" where
  "iterate ob =
     (case ob of
        ListObj elems \<Rightarrow> Inr elems
      | DictObj items \<Rightarrow> (if items = [] then Inr [] else Inl TypeError))"

text \<open>
  \<^verbatim>\<open>sorted(sol, key=...)\<close> on the object at address \<open>a\<close>: the sorted elements go into
  a newly allocated list, whose address is returned.
\<close>

definition sorted_alloc :: "store \<Rightarrow> nat \<Rightarrow> store \<times> (py_error + nat)" where
  "sorted_alloc h a =
     (case iterate (h ! a) of
        Inl e \<Rightarrow> (h, Inl e)
      | Inr sol \<Rightarrow>
          (case py_sorted obj_key sol of
             Inl e \<Rightarrow> (h, Inl e)
           | Inr ranked \<Rightarrow> (h @ [ListObj ranked], Inr (length h))))"

text \<open>
  The truth value \<^verbatim>\<open>if _z:\<close> takes: of a boolean itself, of a number whether it is
  nonzero, of a NumPy array that of its only element (none for a longer array).
\<close>

fun truthy :: "pyval \<Rightarrow> py_error + bool" where
  "truthy (Bool b) = Inr b"
| "truthy (Num r) = Inr (r \<noteq> 0)"
| "truthy (Arr []) = Inr False"
| "truthy (Arr [v]) = Inr (v \<noteq> 0)"
| "truthy (Arr (v # w # vs)) = Inl ValueError"

text \<open>The inner loop over \<^verbatim>\<open>zip(x, y, z)\<close>, with \<^verbatim>\<open>x_feas\<close> and \<^verbatim>\<open>y_feas\<close> as accumulators.\<close>

fun feasible_bars ::
  "(pyval \<times> pyval \<times> pyval) list \<Rightarrow> pyval list \<Rightarrow> pyval list
     \<Rightarrow> py_error + (pyval list \<times> pyval list)" where
  "feasible_bars [] x_feas y_feas = Inr (x_feas, y_feas)"
| "feasible_bars ((x, y, z) # rest) x_feas y_feas =
     (case truthy z of
        Inl e \<Rightarrow> Inl e
      | Inr t \<Rightarrow>
          (if t then feasible_bars rest (x_feas @ [x]) (y_feas @ [y])
           else feasible_bars rest x_feas y_feas))"

text \<open>The drawing calls of one iteration of the outer loop, for the list \<open>sol\<close>.\<close>

definition draw_entry :: "bool \<Rightarrow> string \<Rightarrow> sol list \<Rightarrow> py_error + draw list" where
  "draw_entry show_feasible label sol =
     (case map_err (getitem ''obj'') sol of
        Inl e \<Rightarrow> Inl e
      | Inr x \<Rightarrow>
     (case map_err (getitem ''prob'') sol of
        Inl e \<Rightarrow> Inl e
      | Inr y \<Rightarrow>
     (case map_err (getitem ''feas'') sol of
        Inl e \<Rightarrow> Inl e
      | Inr z \<Rightarrow>
          (if show_feasible then
             (case feasible_bars (zip x (zip y z)) [] [] of
                Inl e \<Rightarrow> Inl e
              | Inr (x_feas, y_feas) \<Rightarrow>
                  Inr [Plot x, Bar x y label, Bar x_feas y_feas (label @ '' (feas)'')])
           else Inr [Plot x, Bar x y label]))))"

text \<open>
  The outer loop over \<^verbatim>\<open>dict_sols.items()\<close>. The local variable \<^verbatim>\<open>sol\<close> holds an
  address; the assignment \<^verbatim>\<open>sol = sorted(...)\<close> rebinds it. An exception leaves the
  loop with the store as it is at that moment.
\<close>

fun plot_entries ::
  "bool \<Rightarrow> bool \<Rightarrow> (string \<times> nat) list \<Rightarrow> store \<Rightarrow> draw list
     \<Rightarrow> store \<times> (py_error + draw list)" where
  "plot_entries show_feasible sort_obj [] h canvas = (h, Inr canvas)"
| "plot_entries show_feasible sort_obj ((label, sol) # items) h canvas =
     (case (if sort_obj then sorted_alloc h sol else (h, Inr sol)) of
        (h1, Inl e) \<Rightarrow> (h1, Inl e)
      | (h1, Inr sol1) \<Rightarrow>
          (case iterate (h1 ! sol1) of
             Inl e \<Rightarrow> (h1, Inl e)
           | Inr elems \<Rightarrow>
               (case draw_entry show_feasible label elems of
                  Inl e \<Rightarrow> (h1, Inl e)
                | Inr ds \<Rightarrow> plot_entries show_feasible sort_obj items h1 (canvas @ ds))))"

text \<open>
  The call itself; \<open>dict_sols\<close> is the address of the dict. A store is well formed
  when every address held in it points into it, as every Python reference does.
\<close>

definition plot_solutions ::
  "nat \<Rightarrow> real \<Rightarrow> bool \<Rightarrow> bool \<Rightarrow> store \<Rightarrow> store \<times> (py_error + draw list)" where
  "plot_solutions dict_sols exact show_feasible sort_obj h =
     (case h ! dict_sols of
        ListObj l \<Rightarrow> (h, Inl AttributeError)
      | DictObj items \<Rightarrow>
          (case plot_entries show_feasible sort_obj items h [] of
             (h1, Inl e) \<Rightarrow> (h1, Inl e)
           | (h1, Inr canvas) \<Rightarrow> (h1, Inr (canvas @ [AxHLine exact, AxVLine exact, Legend, Show]))))"

definition refs_ok :: "store \<Rightarrow> bool" where
  "refs_ok h =
     list_all (\<lambda>ob. case ob of ListObj l \<Rightarrow> True
                     | DictObj items \<Rightarrow> list_all (\<lambda>(label, a). a < length h) items) h"

section \<open>The problem model and the evaluator\<close>

text \<open>
  The notebook imports the class \<^verbatim>\<open>GardenOptimizationProblem\<close> and calls its methods
  \<^verbatim>\<open>is_feasible\<close> and \<^verbatim>\<open>evaluate_objective\<close>; the module that defines the class is not
  among the sources, and the brute-force cell of the notebook is left to the reader
  (\<^verbatim>\<open># insert your code here\<close>). The definitions of this section follow the
  specification instead.
\<close>

text \<open>
  Modelled from the spec: the instance data the feasibility check reads (the class
  \<^verbatim>\<open>GardenOptimizationProblem\<close> is missing): the number of pots and, for every species,
  its required occurrence count \<^verbatim>\<open>count[s]\<close>.
\<close>

record constraints =
  num_pots :: nat
  species_count :: "nat list"

text \<open>
  Modelled from the spec: the number of species of the catalog (the class is missing), one
  per entry of \<^verbatim>\<open>count\<close>.
\<close>

definition num_species :: "'a constraints_scheme \<Rightarrow> nat" where
  "num_species g = length (species_count g)"

text \<open>
  Modelled from the spec: the length of an assignment (the class is missing),
  \<^verbatim>\<open>|pots| * |species|\<close>, one binary variable per pair of a pot and a species.
\<close>

definition num_vars :: "'a constraints_scheme \<Rightarrow> nat" where
  "num_vars g = num_pots g * num_species g"

text \<open>
  Modelled from the spec: the QUBOInstance (built by the missing method
  \<^verbatim>\<open>build_qubo\<close>): the matrix \<open>Q\<close>, the vector \<open>c\<close> and the scalar offset, indexed by
  variable index, together with the size classes and the three Lagrangian weights it
  was built from.
\<close>

record qubo_instance = constraints +
  species_size :: "nat list"
  lambda1 :: real
  lambda2 :: real
  lambda3 :: real
  qubo_Q :: "nat \<Rightarrow> nat \<Rightarrow> real"
  qubo_c :: "nat \<Rightarrow> real"
  qubo_offset :: real

text \<open>
  Modelled from the spec: when a binary variable says "pot \<open>i\<close> is planted with species
  \<open>s\<close>" (the class that reads assignments is missing): variable \<open>k\<close> is set in \<open>x\<close> when
  \<open>x[k]\<close> is 1.
\<close>

definition planted :: "int list \<Rightarrow> nat \<Rightarrow> bool" where
  "planted x k = (k < length x \<and> x ! k = 1)"

text \<open>
  Modelled from the spec: the number of species planted in pot \<open>i\<close> (part of the missing
  \<^verbatim>\<open>is_feasible\<close>), the ones in "pot-row" \<open>i\<close> of the assignment.
\<close>

definition pot_load :: "'a constraints_scheme \<Rightarrow> int list \<Rightarrow> nat \<Rightarrow> nat" where
  "pot_load g x i =
     length (filter (\<lambda>s. planted x (var_index (num_species g) i s)) [0..<num_species g])"

text \<open>
  Modelled from the spec: the number of pots planted with species \<open>s\<close> (part of the
  missing \<^verbatim>\<open>is_feasible\<close>), the ones in "species-column" \<open>s\<close> of the assignment.
\<close>

definition species_load :: "'a constraints_scheme \<Rightarrow> int list \<Rightarrow> nat \<Rightarrow> nat" where
  "species_load g x s =
     length (filter (\<lambda>i. planted x (var_index (num_species g) i s)) [0..<num_pots g])"

text \<open>
  Modelled from the spec: \<^verbatim>\<open>is_feasible\<close> (missing with the class): "re-checks, without
  relying on the penalty weights, that (a) every pot has exactly one species and (b)
  every species occurs exactly \<^verbatim>\<open>count[s]\<close> times".
\<close>

definition is_feasible :: "'a constraints_scheme \<Rightarrow> int list \<Rightarrow> bool" where
  "is_feasible g x =
     (list_all (\<lambda>i. pot_load g x i = 1) [0..<num_pots g]
      \<and> list_all (\<lambda>s. species_load g x s = species_count g ! s) [0..<num_species g])"

text \<open>
  Modelled from the spec: \<^verbatim>\<open>evaluate_objective\<close> (missing with the class): "computes
  \<open>x\<^sup>T Q x + c\<^sup>T x + offset\<close> for a full-length binary vector \<open>x\<close>; fails with
  \<^verbatim>\<open>LengthMismatchError\<close> if \<^verbatim>\<open>len(x) != |pots|*|species|\<close>".
\<close>

definition evaluate_objective :: "'a qubo_instance_scheme \<Rightarrow> int list \<Rightarrow> py_error + real" where
  "evaluate_objective inst x =
     (if length x \<noteq> num_vars inst then Inl LengthMismatchError
      else Inr
        (sum_list (map (\<lambda>i. sum_list (map (\<lambda>j.
             real_of_int (x ! i) * qubo_Q inst i j * real_of_int (x ! j)) [0..<num_vars inst]))
           [0..<num_vars inst])
         + sum_list (map (\<lambda>i. qubo_c inst i * real_of_int (x ! i)) [0..<num_vars inst])
         + qubo_offset inst))"

text \<open>
  Modelled from the spec: the CandidateSolution (the sources have no such type): "an
  Assignment plus derived fields {objective value, feasibility flag, optional sampling
  probability}".
\<close>

record candidate =
  cand_x :: "int list"
  cand_obj :: "py_error + real"
  cand_feas :: bool
  cand_prob :: "real option"

text \<open>
  Modelled from the spec: the evaluation that produces a CandidateSolution (missing with
  the brute-force search): objective and feasibility of the assignment, no probability.
\<close>

definition evaluate_candidate :: "'a qubo_instance_scheme \<Rightarrow> int list \<Rightarrow> candidate" where
  "evaluate_candidate inst x =
     \<lparr>cand_x = x, cand_obj = evaluate_objective inst x, cand_feas = is_feasible inst x,
      cand_prob = None\<rparr>"

text \<open>
  Modelled from the spec: \<^verbatim>\<open>enumerate_all\<close> (the brute-force search is not implemented in
  the sources): "for each integer k in [0, 2^N), derive the N-bit binary representation
  (bit 0 corresponds to variable index 0), evaluate objective and feasibility, and yield
  the CandidateSolution".
\<close>

definition enumerate_all :: "'a qubo_instance_scheme \<Rightarrow> candidate list" where
  "enumerate_all inst =
     map (\<lambda>k. evaluate_candidate inst (bits_lsb (num_vars inst) (int k)))
       [0..<2 ^ num_vars inst]"

text \<open>The notebook's instance: a 2 by 2 grid and four species, each required once.\<close>

definition grid_2x2 :: "'a qubo_instance_scheme \<Rightarrow> bool" where
  "grid_2x2 inst = (num_pots inst = 4 \<and> species_count inst = [1, 1, 1, 1])"

text \<open>Small instances for evaluating the model: one pot and two species, with only the
  fill-all-pots penalty \<open>2 (x\<^sub>0 + x\<^sub>1 - 1)\<^sup>2\<close> as objective; and the notebook's 2 by 2 grid
  with weights (2, 2, 1) and an objective left at zero.\<close>

definition one_pot_instance :: qubo_instance where
  "one_pot_instance =
     \<lparr>num_pots = 1, species_count = [1, 0], species_size = [1, 2],
      lambda1 = 2, lambda2 = 0, lambda3 = 0,
      qubo_Q = (\<lambda>i j. 2), qubo_c = (\<lambda>i. - 4), qubo_offset = 2\<rparr>"

definition notebook_instance :: qubo_instance where
  "notebook_instance =
     \<lparr>num_pots = 4, species_count = [1, 1, 1, 1], species_size = [1, 2, 2, 3],
      lambda1 = 2, lambda2 = 2, lambda3 = 1,
      qubo_Q = (\<lambda>i j. 0), qubo_c = (\<lambda>i. 0), qubo_offset = 0\<rparr>"

text \<open>
  For counting the feasible assignments of a square instance (as many species as pots,
  each required once): a placement lists the species of pot 0, pot 1, ...; its vector
  sets exactly the variables (pot, species of the pot).
\<close>

definition placement_vector :: "nat \<Rightarrow> nat list \<Rightarrow> int list" where
  "placement_vector n \<sigma> =
     map (\<lambda>k. if \<sigma> ! (k div n) = k mod n then 1 else 0) [0..<length \<sigma> * n]"

definition vector_placement :: "nat \<Rightarrow> int list \<Rightarrow> nat list" where
  "vector_placement n x = map (\<lambda>i. THE s. s < n \<and> x ! (i * n + s) = 1) [0..<n]"

definition one_each :: "nat \<Rightarrow> int list \<Rightarrow> bool" where
  "one_each n x \<longleftrightarrow>
     (\<forall>i<n. \<exists>!s. s < n \<and> x ! (i * n + s) = 1)
     \<and> (\<forall>s<n. card {i. i < n \<and> x ! (i * n + s) = 1} = 1)"

section \<open>Properties of the callback\<close>

lemma run_callbacks_counts:
  "hist_counts (run_callbacks offset calls h) = hist_counts h @ map fst calls"
  by (induction offset calls h rule: run_callbacks.induct)
     (simp_all add: store_intermediate_result_def)

lemma run_callbacks_values:
  "hist_values (run_callbacks offset calls h) =
     hist_values h @ map (\<lambda>(e, ps, m, s). m + offset) calls"
  by (induction offset calls h rule: run_callbacks.induct)
     (simp_all add: store_intermediate_result_def)

text \<open>
  Claim C10. One invocation of \<^verbatim>\<open>store_intermediate_result\<close> appends exactly one element to
  \<^verbatim>\<open>counts\<close> (the evaluation count) and exactly one to \<^verbatim>\<open>values\<close>, and the element
  recorded in \<^verbatim>\<open>values\<close> is \<^verbatim>\<open>mean + offset\<close>. Hence the two lists grow in step:
  after any sequence of invocations both are longer by the number of invocations, and
  they have equal length whenever they had before.
\<close>

theorem store_intermediate_result_appends:
  "hist_counts (store_intermediate_result offset eval_count parameters mean std h)
     = hist_counts h @ [eval_count]
   \<and> hist_values (store_intermediate_result offset eval_count parameters mean std h)
     = hist_values h @ [mean + offset]
   \<and> length (hist_counts (run_callbacks offset calls h)) = length (hist_counts h) + length calls
   \<and> length (hist_values (run_callbacks offset calls h)) = length (hist_values h) + length calls
   \<and> (length (hist_counts h) = length (hist_values h) \<longrightarrow>
        length (hist_counts (run_callbacks offset calls h))
          = length (hist_values (run_callbacks offset calls h)))"
  by (simp add: store_intermediate_result_def run_callbacks_counts run_callbacks_values)

theorem store_intermediate_result_appends_witness:
  "length (hist_counts history_init) = length (hist_values history_init)
   \<and> length (hist_counts (run_callbacks 3 [(1, [0.5, -0.25], 2, 0), (2, [0.6, -0.2], -1, 0)] history_init))
     = length (hist_values (run_callbacks 3 [(1, [0.5, -0.25], 2, 0), (2, [0.6, -0.2], -1, 0)] history_init))
   \<and> hist_values (run_callbacks 3 [(1, [0.5, -0.25], 2, 0), (2, [0.6, -0.2], -1, 0)] history_init) = [5, 2]"
  using store_intermediate_result_appends
    [of 3 1 "[]" 0 0 history_init "[(1, [0.5, -0.25], 2, 0), (2, [0.6, -0.2], -1, 0)]"]
  by (simp add: history_init_def store_intermediate_result_def)

section \<open>Properties of sampling\<close>

lemma map_err_total:
  "(\<And>a. a \<in> set as \<Longrightarrow> f a = Inr (g a)) \<Longrightarrow> map_err f as = Inr (map g as)"
  by (induction as) simp_all

lemma int_of_char_binary:
  "y = CHR ''0'' \<or> y = CHR ''1'' \<Longrightarrow> int_of_char y = Inr (digit_of y)"
  by (auto simp: int_of_char_def digit_of_def)

lemma reversed_bits_binary:
  "binary_string s \<Longrightarrow> reversed_bits s = Inr (map digit_of (rev s))"
  unfolding reversed_bits_def binary_string_def
  by (rule map_err_total) (simp add: list_all_iff int_of_char_binary)

lemma msb_value_snoc: "msb_value (s @ [y]) = 2 * msb_value s + digit_of y"
  by (simp add: msb_value_def)

lemma bits_lsb_Suc:
  "bits_lsb (Suc n) k = (if odd k then 1 else 0) # bits_lsb n (k div 2)"
proof -
  have "[0..<Suc n] = 0 # map Suc [0..<n]"
    by (simp add: upt_conv_Cons map_Suc_upt del: upt_Suc)
  then show ?thesis
    by (simp add: bits_lsb_def bit_0 bit_Suc comp_def del: upt_Suc)
qed

lemma bits_lsb_msb_value: "bits_lsb (length s) (msb_value s) = map digit_of (rev s)"
proof (induction s rule: rev_induct)
  case Nil
  then show ?case by (simp add: bits_lsb_def)
next
  case (snoc y s)
  have "odd (2 * msb_value s + digit_of y) = (digit_of y = 1)"
    by (simp add: digit_of_def)
  moreover have "(2 * msb_value s + digit_of y) div 2 = msb_value s"
    by (simp add: digit_of_def)
  ultimately show ?case
    using snoc by (simp add: msb_value_snoc bits_lsb_Suc digit_of_def)
qed

lemma reversed_bits_denoted:
  "binary_string s \<Longrightarrow> reversed_bits s = Inr (denoted_assignment s)"
  by (simp add: reversed_bits_binary denoted_assignment_def bits_lsb_msb_value)

lemma denoted_assignment_nth:
  "i < length s \<Longrightarrow>
     denoted_assignment s ! i = digit_of (s ! (length s - 1 - i))
     \<and> denoted_assignment s ! i = (if bit (msb_value s) i then 1 else 0)"
proof -
  assume i: "i < length s"
  have "denoted_assignment s ! i = map digit_of (rev s) ! i"
    by (simp add: denoted_assignment_def bits_lsb_msb_value)
  also have "\<dots> = digit_of (s ! (length s - 1 - i))"
    using i by (simp add: rev_nth)
  finally have "denoted_assignment s ! i = digit_of (s ! (length s - 1 - i))" .
  moreover have "denoted_assignment s ! i = (if bit (msb_value s) i then 1 else 0)"
    using i by (simp add: denoted_assignment_def bits_lsb_def)
  ultimately show ?thesis by simp
qed

lemma var_index_less:
  "i < p \<Longrightarrow> s < n \<Longrightarrow> var_index n i s < p * n"
proof -
  assume i: "i < p" and s: "s < n"
  have "i * n + s < i * n + n" using s by simp
  also have "\<dots> = Suc i * n" by simp
  also have "\<dots> \<le> p * n" using i by (intro mult_le_mono1) simp
  finally show ?thesis by (simp add: var_index_def)
qed

lemma sampling_loop_Inr:
  "sampling_loop ev fe n items acc = Inr sols \<Longrightarrow>
   \<exists>new. sols = acc @ new \<and> length new = length items \<and>
     (\<forall>k<length items. \<exists>x. reversed_bits (fst (items ! k)) = Inr x \<and> n \<noteq> 0 \<and>
        new ! k = make_sol x (real (snd (items ! k)) / real_of_int n) (ev x) (fe x))"
proof (induction ev fe n items acc arbitrary: sols rule: sampling_loop.induct)
  case (1 ev fe n acc)
  then show ?case by simp
next
  case (2 ev fe n s p items acc)
  from "2.prems" obtain x where x: "reversed_bits s = Inr x" and n: "n \<noteq> 0"
    and rest: "sampling_loop ev fe n items
                 (acc @ [make_sol x (real p / real_of_int n) (ev x) (fe x)]) = Inr sols"
    by (auto split: sum.splits if_splits)
  from "2.IH"[OF x _ rest] n obtain new where new:
    "sols = (acc @ [make_sol x (real p / real_of_int n) (ev x) (fe x)]) @ new"
    "length new = length items"
    "\<forall>k<length items. \<exists>x. reversed_bits (fst (items ! k)) = Inr x \<and> n \<noteq> 0 \<and>
        new ! k = make_sol x (real (snd (items ! k)) / real_of_int n) (ev x) (fe x)"
    by auto
  let ?new = "make_sol x (real p / real_of_int n) (ev x) (fe x) # new"
  have "sols = acc @ ?new" using new(1) by simp
  moreover have "length ?new = length ((s, p) # items)" using new(2) by simp
  moreover have "\<forall>k<length ((s, p) # items).
      \<exists>xa. reversed_bits (fst (((s, p) # items) ! k)) = Inr xa \<and> n \<noteq> 0 \<and>
        ?new ! k = make_sol xa (real (snd (((s, p) # items) ! k)) / real_of_int n) (ev xa) (fe xa)"
  proof (intro allI impI)
    fix k assume "k < length ((s, p) # items)"
    then show "\<exists>xa. reversed_bits (fst (((s, p) # items) ! k)) = Inr xa \<and> n \<noteq> 0 \<and>
        ?new ! k = make_sol xa (real (snd (((s, p) # items) ! k)) / real_of_int n) (ev xa) (fe xa)"
      using x n new(3) by (cases k) auto
  qed
  ultimately show ?case by blast
qed

lemma sampling_Inr:
  assumes "sampling ev fe n cs = Inr sols"
  shows "length sols = length cs"
    and "k < length cs \<Longrightarrow> \<exists>x. reversed_bits (fst (cs ! k)) = Inr x \<and> n \<noteq> 0 \<and>
        sols ! k = make_sol x (real (snd (cs ! k)) / real_of_int n) (ev x) (fe x)"
  using sampling_loop_Inr[of ev fe n cs "[]" sols] assms
  by (auto simp: sampling_def)

lemma sampling_returns:
  "\<forall>(s, p) \<in> set cs. binary_string s \<Longrightarrow> n \<noteq> 0 \<Longrightarrow> \<exists>sols. sampling ev fe n cs = Inr sols"
proof -
  have "\<forall>(s, p) \<in> set items. binary_string s \<Longrightarrow> n \<noteq> 0 \<Longrightarrow>
        \<exists>sols. sampling_loop ev fe n items acc = Inr sols" for items acc
    by (induction ev fe n items acc rule: sampling_loop.induct)
       (auto simp: reversed_bits_binary)
  then show "\<forall>(s, p) \<in> set cs. binary_string s \<Longrightarrow> n \<noteq> 0 \<Longrightarrow>
             \<exists>sols. sampling ev fe n cs = Inr sols"
    by (simp add: sampling_def)
qed

lemma make_sol_fields:
  "dom (make_sol x p ob f) = {''x'', ''prob'', ''obj'', ''feas''}"
  "make_sol x p ob f ''x'' = Some (Arr x)"
  "make_sol x p ob f ''prob'' = Some (Num p)"
  "make_sol x p ob f ''obj'' = Some (Num ob)"
  "make_sol x p ob f ''feas'' = Some (Bool f)"
  by (auto simp: make_sol_def)

text \<open>
  Claim C8. Every element of the list that \<^verbatim>\<open>sampling\<close> returns is a dict with exactly
  the keys \<^verbatim>\<open>"x"\<close>, \<^verbatim>\<open>"prob"\<close>, \<^verbatim>\<open>"obj"\<close> and \<^verbatim>\<open>"feas"\<close>. The list has one element per
  measured bitstring, in the order of the counts. The element for the bitstring \<open>s\<close> with
  count \<open>p\<close> stores under \<^verbatim>\<open>"x"\<close> the reversed bit vector \<open>x\<close> of \<open>s\<close>, under \<^verbatim>\<open>"prob"\<close> the
  quotient \<open>p / n_shots\<close>, and under \<^verbatim>\<open>"obj"\<close> and \<^verbatim>\<open>"feas"\<close> the objective and the
  feasibility of that same \<open>x\<close>. The quotient is nonnegative for the positive shot numbers
  a backend runs.
\<close>

theorem sampling_elements:
  assumes "sampling evaluate is_feas n_shots cs = Inr sols"
  shows "length sols = length cs
    \<and> (\<forall>k<length sols. \<exists>x.
          reversed_bits (fst (cs ! k)) = Inr x
        \<and> dom (sols ! k) = {''x'', ''prob'', ''obj'', ''feas''}
        \<and> (sols ! k) ''x'' = Some (Arr x)
        \<and> (sols ! k) ''prob'' = Some (Num (real (snd (cs ! k)) / real_of_int n_shots))
        \<and> (sols ! k) ''obj'' = Some (Num (evaluate x))
        \<and> (sols ! k) ''feas'' = Some (Bool (is_feas x))
        \<and> (0 < n_shots \<longrightarrow> 0 \<le> real (snd (cs ! k)) / real_of_int n_shots))"
proof -
  have len: "length sols = length cs"
    using sampling_Inr(1)[OF assms] .
  moreover have "\<exists>x. reversed_bits (fst (cs ! k)) = Inr x
        \<and> dom (sols ! k) = {''x'', ''prob'', ''obj'', ''feas''}
        \<and> (sols ! k) ''x'' = Some (Arr x)
        \<and> (sols ! k) ''prob'' = Some (Num (real (snd (cs ! k)) / real_of_int n_shots))
        \<and> (sols ! k) ''obj'' = Some (Num (evaluate x))
        \<and> (sols ! k) ''feas'' = Some (Bool (is_feas x))
        \<and> (0 < n_shots \<longrightarrow> 0 \<le> real (snd (cs ! k)) / real_of_int n_shots)"
    if "k < length sols" for k
  proof -
    from that len have "k < length cs" by simp
    from sampling_Inr(2)[OF assms this] obtain x where
      "reversed_bits (fst (cs ! k)) = Inr x"
      "sols ! k = make_sol x (real (snd (cs ! k)) / real_of_int n_shots) (evaluate x) (is_feas x)"
      by blast
    then show ?thesis
      by (intro exI[of _ x]) (simp add: make_sol_fields)
  qed
  ultimately show ?thesis by blast
qed

theorem sampling_elements_witness:
  "sampling ones_objective single_one 128 [(''01'', 96), (''11'', 32)]
     = Inr [make_sol [1, 0] (3 / 4) 1 True, make_sol [1, 1] (1 / 4) 2 False]
   \<and> dom (make_sol [1, 0] (3 / 4) 1 True) = {''x'', ''prob'', ''obj'', ''feas''}
   \<and> make_sol [1, 0] (3 / 4) 1 True ''prob'' = Some (Num (96 / 128))"
proof -
  have run: "sampling ones_objective single_one 128 [(''01'', 96), (''11'', 32)]
     = Inr [make_sol [1, 0] (3 / 4) 1 True, make_sol [1, 1] (1 / 4) 2 False]"
    by (simp add: sampling_def reversed_bits_def int_of_char_def ones_objective_def
        single_one_def)
  have k: "(0::nat) < length [make_sol [1, 0] (3 / 4) 1 True, make_sol [1, 1] (1 / 4) 2 False]"
    by simp
  from sampling_elements[OF run, THEN conjunct2, rule_format, OF k] obtain x where
    "dom ([make_sol [1, 0] (3 / 4) 1 True, make_sol [1, 1] (1 / 4) 2 False] ! 0)
        = {''x'', ''prob'', ''obj'', ''feas''}"
    "([make_sol [1, 0] (3 / 4) 1 True, make_sol [1, 1] (1 / 4) 2 False] ! 0) ''prob''
        = Some (Num (real (snd ([(''01'', 96), (''11'', 32)] ! 0)) / real_of_int 128))"
    by blast
  with run show ?thesis by simp
qed

text \<open>
  Claim C3. The bit vector that \<^verbatim>\<open>sampling\<close> hands to the objective and to the feasibility
  check is indexed by variable index: for a measurement string \<open>s\<close> (most significant
  bit first) of length pots times species, entry \<open>pot * num_species + species\<close> of the
  vector is bit \<open>pot * num_species + species\<close> of the integer \<open>s\<close> denotes, that is the
  character of \<open>s\<close> at that distance from its end; entry 0 is variable (pot 0, species 0).
  The reversed string is the assignment \<open>s\<close> denotes, so the stored objective and
  feasibility are those of that assignment.
\<close>

theorem sampling_bit_order:
  assumes "sampling evaluate is_feas n_shots cs = Inr sols"
    and "k < length cs"
    and "binary_string (fst (cs ! k))"
    and "length (fst (cs ! k)) = pots * species"
  shows "reversed_bits (fst (cs ! k)) = Inr (denoted_assignment (fst (cs ! k)))
    \<and> (sols ! k) ''x'' = Some (Arr (denoted_assignment (fst (cs ! k))))
    \<and> (sols ! k) ''obj'' = Some (Num (evaluate (denoted_assignment (fst (cs ! k)))))
    \<and> (sols ! k) ''feas'' = Some (Bool (is_feas (denoted_assignment (fst (cs ! k)))))
    \<and> var_index species 0 0 = 0
    \<and> (\<forall>i<pots. \<forall>sp<species.
          denoted_assignment (fst (cs ! k)) ! var_index species i sp
            = digit_of (fst (cs ! k) ! (pots * species - 1 - var_index species i sp))
        \<and> denoted_assignment (fst (cs ! k)) ! var_index species i sp
            = (if bit (msb_value (fst (cs ! k))) (var_index species i sp) then 1 else 0))"
proof -
  let ?s = "fst (cs ! k)"
  have rb: "reversed_bits ?s = Inr (denoted_assignment ?s)"
    using assms(3) by (rule reversed_bits_denoted)
  from sampling_Inr(2)[OF assms(1,2)] rb have
    "sols ! k = make_sol (denoted_assignment ?s) (real (snd (cs ! k)) / real_of_int n_shots)
       (evaluate (denoted_assignment ?s)) (is_feas (denoted_assignment ?s))"
    by auto
  then have fields: "(sols ! k) ''x'' = Some (Arr (denoted_assignment ?s))"
    "(sols ! k) ''obj'' = Some (Num (evaluate (denoted_assignment ?s)))"
    "(sols ! k) ''feas'' = Some (Bool (is_feas (denoted_assignment ?s)))"
    by (simp_all add: make_sol_fields)
  have idx: "denoted_assignment ?s ! var_index species i sp
            = digit_of (?s ! (pots * species - 1 - var_index species i sp))
        \<and> denoted_assignment ?s ! var_index species i sp
            = (if bit (msb_value ?s) (var_index species i sp) then 1 else 0)"
    if "i < pots" "sp < species" for i sp
    using denoted_assignment_nth[of "var_index species i sp" ?s] var_index_less[OF that]
      assms(4) by simp
  have "var_index species 0 0 = 0" by (simp add: var_index_def)
  with rb fields idx show ?thesis by blast
qed

theorem sampling_bit_order_witness:
  "sampling ones_objective single_one 128 [(''0001'', 100), (''1100'', 28)]
     = Inr [make_sol [1, 0, 0, 0] (100 / 128) 1 True, make_sol [0, 0, 1, 1] (28 / 128) 2 False]
   \<and> binary_string ''1100'' \<and> length ''1100'' = 2 * 2
   \<and> denoted_assignment ''1100'' = [0, 0, 1, 1] \<and> msb_value ''1100'' = 12
   \<and> reversed_bits ''1100'' = Inr (denoted_assignment ''1100'')
   \<and> denoted_assignment ''1100'' ! var_index 2 1 0 = digit_of (''1100'' ! (2 * 2 - 1 - var_index 2 1 0))"
proof -
  have run: "sampling ones_objective single_one 128 [(''0001'', 100), (''1100'', 28)]
     = Inr [make_sol [1, 0, 0, 0] (100 / 128) 1 True, make_sol [0, 0, 1, 1] (28 / 128) 2 False]"
    by (simp add: sampling_def reversed_bits_def int_of_char_def ones_objective_def
        single_one_def)
  have k: "(1::nat) < length [(''0001'', 100::nat), (''1100'', 28)]" by simp
  have b: "binary_string (fst ([(''0001'', 100::nat), (''1100'', 28)] ! 1))"
    by (simp add: binary_string_def)
  have l: "length (fst ([(''0001'', 100::nat), (''1100'', 28)] ! 1)) = 2 * 2" by simp
  have d: "denoted_assignment ''1100'' = [0, 0, 1, 1] \<and> msb_value ''1100'' = 12"
    by code_simp
  from sampling_bit_order[OF run k b l] have
    "reversed_bits ''1100'' = Inr (denoted_assignment ''1100'')"
    "\<forall>i<2. \<forall>sp<2. denoted_assignment ''1100'' ! var_index 2 i sp
        = digit_of (''1100'' ! (2 * 2 - 1 - var_index 2 i sp))"
    by simp_all
  from this(1) this(2)[rule_format, of 1 0] run d show ?thesis
    by (simp add: binary_string_def)
qed


section \<open>Properties of ranking\<close>

lemma insort_key_decorated:
  "insort_key fst (g a, a) (map (\<lambda>x. (g x, x)) ys) = map (\<lambda>x. (g x, x)) (insort_key g a ys)"
  by (induction ys) simp_all

lemma sort_key_decorated:
  "sort_key fst (map (\<lambda>x. (g x, x)) xs) = map (\<lambda>x. (g x, x)) (sort_key g xs)"
  by (induction xs) (simp_all add: insort_key_decorated)

lemma py_sorted_total:
  assumes "\<And>x. x \<in> set xs \<Longrightarrow> key x = Inr (g x)"
  shows "py_sorted key xs = Inr (sort_key g xs)"
proof -
  have "map_err key xs = Inr (map g xs)"
    using assms by (rule map_err_total)
  moreover have "zip (map g xs) xs = map (\<lambda>x. (g x, x)) xs"
    by (induction xs) simp_all
  ultimately show ?thesis
    by (simp add: py_sorted_def sort_key_decorated comp_def)
qed

lemma lowest_obj_solutions_total:
  "\<forall>c\<in>set cands. \<exists>r. obj_key c = Inr r \<Longrightarrow>
     lowest_obj_solutions cands = Inr (sort_key obj_of cands)"
  unfolding lowest_obj_solutions_def
  by (rule py_sorted_total) (auto simp: obj_of_def)

lemma map_err_Inr_all: "map_err f as = Inr bs \<Longrightarrow> a \<in> set as \<Longrightarrow> \<exists>b. f a = Inr b"
  by (induction as arbitrary: bs) (auto split: sum.splits)

lemma lowest_obj_solutions_Inr:
  "lowest_obj_solutions cands = Inr ranked \<Longrightarrow> ranked = sort_key obj_of cands"
proof -
  assume r: "lowest_obj_solutions cands = Inr ranked"
  then obtain ks where "map_err obj_key cands = Inr ks"
    by (auto simp: lowest_obj_solutions_def py_sorted_def split: sum.splits)
  then have "\<forall>c\<in>set cands. \<exists>r. obj_key c = Inr r"
    by (blast dest: map_err_Inr_all)
  from lowest_obj_solutions_total[OF this] r show ?thesis by simp
qed

text \<open>
  Claim C5. Ranking a finite sequence of candidates that all carry a numeric objective
  returns the same candidates (as a multiset), in ascending order of objective, and
  candidates of equal objective keep their relative input order: for every value, the
  candidates with that objective form the same subsequence before and after.
\<close>

theorem rank_stable_sort:
  assumes "\<forall>c\<in>set cands. \<exists>r. obj_key c = Inr r"
  shows "\<exists>ranked. lowest_obj_solutions cands = Inr ranked
    \<and> mset ranked = mset cands
    \<and> sorted (map obj_of ranked)
    \<and> (\<forall>v. filter (\<lambda>c. obj_of c = v) ranked = filter (\<lambda>c. obj_of c = v) cands)"
  using lowest_obj_solutions_total[OF assms] by (simp add: sort_key_stable)

lemma obj_key_make_sol: "obj_key (make_sol x p ob f) = Inr ob"
  by (simp add: obj_key_def getitem_def make_sol_def)

theorem rank_stable_sort_witness:
  "lowest_obj_solutions [make_sol [0, 1] (1 / 2) 2 False, make_sol [1, 0] (1 / 4) 1 True,
        make_sol [1, 1] (1 / 4) 2 False]
      = Inr [make_sol [1, 0] (1 / 4) 1 True, make_sol [0, 1] (1 / 2) 2 False,
             make_sol [1, 1] (1 / 4) 2 False]
   \<and> filter (\<lambda>c. obj_of c = 2)
        [make_sol [1, 0] (1 / 4) 1 True, make_sol [0, 1] (1 / 2) 2 False,
         make_sol [1, 1] (1 / 4) 2 False]
      = filter (\<lambda>c. obj_of c = 2)
        [make_sol [0, 1] (1 / 2) 2 False, make_sol [1, 0] (1 / 4) 1 True,
         make_sol [1, 1] (1 / 4) 2 False]"
proof -
  let ?cands = "[make_sol [0, 1] (1 / 2) 2 False, make_sol [1, 0] (1 / 4) 1 True,
               make_sol [1, 1] (1 / 4) 2 False]"
  have h: "\<forall>c\<in>set ?cands. \<exists>r. obj_key c = Inr r"
    by (simp add: obj_key_make_sol)
  have run: "lowest_obj_solutions ?cands
      = Inr [make_sol [1, 0] (1 / 4) 1 True, make_sol [0, 1] (1 / 2) 2 False,
             make_sol [1, 1] (1 / 4) 2 False]"
    by (simp add: lowest_obj_solutions_def py_sorted_def obj_key_make_sol)
  from rank_stable_sort[OF h] obtain ranked where
    r: "lowest_obj_solutions ?cands = Inr ranked"
    and st: "\<forall>v. filter (\<lambda>c. obj_of c = v) ranked = filter (\<lambda>c. obj_of c = v) ?cands"
    by blast
  from r run have "ranked = [make_sol [1, 0] (1 / 4) 1 True, make_sol [0, 1] (1 / 2) 2 False,
             make_sol [1, 1] (1 / 4) 2 False]"
    by simp
  with st[rule_format, of 2] run show ?thesis by blast
qed

section \<open>Weights in the sampled candidates\<close>









section \<open>The store under plotting\<close>

lemma sorted_alloc_extends:
  "sorted_alloc h a = (h1, r) \<Longrightarrow> \<exists>new. h1 = h @ new"
  by (auto simp: sorted_alloc_def split: sum.splits)

lemma plot_entries_extends:
  "plot_entries sf so items h canvas = (h1, r) \<Longrightarrow> \<exists>new. h1 = h @ new"
proof (induction sf so items h canvas arbitrary: h1 r rule: plot_entries.induct)
  case (1 sf so h canvas)
  then show ?case by simp
next
  case (2 sf so label sol items h canvas)
  obtain h2 r2 where step: "(if so then sorted_alloc h sol else (h, Inr sol)) = (h2, r2)"
    by (cases "if so then sorted_alloc h sol else (h, Inr sol)")
  then obtain n1 where ext: "h2 = h @ n1"
    by (auto split: if_splits dest: sorted_alloc_extends)
  show ?case
  proof (cases r2)
    case (Inl e)
    with "2.prems" step ext show ?thesis by auto
  next
    case (Inr sol1)
    show ?thesis
    proof (cases "iterate (h2 ! sol1)")
      case bad: (Inl e)
      with "2.prems" step Inr ext show ?thesis by auto
    next
      case elems: (Inr elems)
      show ?thesis
      proof (cases "draw_entry sf label elems")
        case (Inl e)
        with "2.prems" step \<open>r2 = Inr sol1\<close> elems ext show ?thesis by auto
      next
        case ds: (Inr ds)
        with "2.prems" step \<open>r2 = Inr sol1\<close> elems
        have rest: "plot_entries sf so items h2 (canvas @ ds) = (h1, r)" by simp
        from "2.IH"[OF step[symmetric] \<open>r2 = Inr sol1\<close> elems ds rest]
        obtain n2 where "h1 = h2 @ n2" by blast
        with ext have "h1 = h @ (n1 @ n2)" by simp
        then show ?thesis by blast
      qed
    qed
  qed
qed

lemma plot_solutions_extends:
  "plot_solutions dict_sols exact sf so h = (h1, r) \<Longrightarrow> \<exists>new. h1 = h @ new"
  by (auto simp: plot_solutions_def split: pyobj.splits prod.splits sum.splits
      dest: plot_entries_extends)

lemma refs_ok_items:
  assumes "refs_ok h" and "a < length h" and "h ! a = DictObj items"
    and "(label, b) \<in> set items"
  shows "b < length h"
proof -
  have "DictObj items \<in> set h"
    using assms(2,3) by (metis nth_mem)
  with assms(1) have "list_all (\<lambda>(label, a). a < length h) items"
    unfolding refs_ok_def list_all_iff by force
  with assms(4) show ?thesis
    unfolding list_all_iff by force
qed

text \<open>
  Claim C9. A call of \<^verbatim>\<open>plot_solutions\<close> changes no object that existed before it,
  whether it returns or raises, and whatever \<^verbatim>\<open>sort_obj\<close> is: the store after the call
  is the store before it followed by newly allocated lists. In particular the argument
  \<^verbatim>\<open>dict_sols\<close> is the same object with the same contents as before, and every list a
  dict argument refers to holds the same elements in the same order.
\<close>

theorem plot_solutions_frame:
  assumes "refs_ok h" and "dict_sols < length h"
    and "plot_solutions dict_sols exact show_feasible sort_obj h = (h1, r)"
  shows "take (length h) h1 = h
    \<and> h1 ! dict_sols = h ! dict_sols
    \<and> (\<forall>items. h ! dict_sols = DictObj items \<longrightarrow>
          (\<forall>(label, a) \<in> set items. a < length h \<and> h1 ! a = h ! a))"
proof -
  from plot_solutions_extends[OF assms(3)] obtain new where ext: "h1 = h @ new"
    by blast
  then have same: "h1 ! a = h ! a" if "a < length h" for a
    using that by (simp add: nth_append)
  have "a < length h" if "h ! dict_sols = DictObj items" "(label, a) \<in> set items"
    for items label a
    using refs_ok_items[OF assms(1,2) that] .
  with ext same assms(2) show ?thesis by auto
qed

theorem plot_solutions_frame_witness:
  "refs_ok [ListObj [make_sol [0, 1] (3 / 4) 2 True, make_sol [1, 1] (1 / 4) 1 False],
            DictObj [(''QAOA'', 0)]]
   \<and> plot_solutions 1 1 True True
        [ListObj [make_sol [0, 1] (3 / 4) 2 True, make_sol [1, 1] (1 / 4) 1 False],
         DictObj [(''QAOA'', 0)]]
      = ([ListObj [make_sol [0, 1] (3 / 4) 2 True, make_sol [1, 1] (1 / 4) 1 False],
          DictObj [(''QAOA'', 0)],
          ListObj [make_sol [1, 1] (1 / 4) 1 False, make_sol [0, 1] (3 / 4) 2 True]],
         Inr [Plot [Num 1, Num 2],
              Bar [Num 1, Num 2] [Num (1 / 4), Num (3 / 4)] ''QAOA'',
              Bar [Num 2] [Num (3 / 4)] ''QAOA (feas)'',
              AxHLine 1, AxVLine 1, Legend, Show])
   \<and> take 2
        [ListObj [make_sol [0, 1] (3 / 4) 2 True, make_sol [1, 1] (1 / 4) 1 False],
         DictObj [(''QAOA'', 0)],
         ListObj [make_sol [1, 1] (1 / 4) 1 False, make_sol [0, 1] (3 / 4) 2 True]]
      = [ListObj [make_sol [0, 1] (3 / 4) 2 True, make_sol [1, 1] (1 / 4) 1 False],
         DictObj [(''QAOA'', 0)]]"
proof -
  let ?h = "[ListObj [make_sol [0, 1] (3 / 4) 2 True, make_sol [1, 1] (1 / 4) 1 False],
            DictObj [(''QAOA'', 0)]]"
  have ok: "refs_ok ?h" by (simp add: refs_ok_def)
  have a: "(1::nat) < length ?h" by simp
  have run: "plot_solutions 1 1 True True ?h
      = (?h @ [ListObj [make_sol [1, 1] (1 / 4) 1 False, make_sol [0, 1] (3 / 4) 2 True]],
         Inr [Plot [Num 1, Num 2],
              Bar [Num 1, Num 2] [Num (1 / 4), Num (3 / 4)] ''QAOA'',
              Bar [Num 2] [Num (3 / 4)] ''QAOA (feas)'',
              AxHLine 1, AxVLine 1, Legend, Show])"
    by (simp add: plot_solutions_def sorted_alloc_def py_sorted_def obj_key_make_sol
        draw_entry_def getitem_def make_sol_fields iterate_def)
  from plot_solutions_frame[OF ok a run] have
    "take (length ?h) (?h @ [ListObj [make_sol [1, 1] (1 / 4) 1 False, make_sol [0, 1] (3 / 4) 2 True]]) = ?h"
    by blast
  with ok run show ?thesis by simp
qed


section \<open>Properties of the evaluator\<close>

lemma planted_var_index:
  assumes "length x = num_vars g" and "i < num_pots g" and "s < num_species g"
  shows "planted x (var_index (num_species g) i s) \<longleftrightarrow> x ! var_index (num_species g) i s = 1"
  using var_index_less[OF assms(2,3)] assms(1) by (simp add: planted_def num_vars_def)

lemma length_filter_upt: "length (filter P [0..<n]) = card {k. k < n \<and> P k}"
proof -
  have "length (filter P [0..<n]) = card ({k. P k} \<inter> set [0..<n])"
    by (rule distinct_length_filter) simp
  also have "{k. P k} \<inter> set [0..<n] = {k. k < n \<and> P k}" by auto
  finally show ?thesis .
qed

lemma card_one_iff_ex1: "card {s. P s} = 1 \<longleftrightarrow> (\<exists>!s. P s)"
proof
  assume "card {s. P s} = 1"
  then obtain a where eq: "{s. P s} = {a}"
    by (auto simp: card_1_singleton_iff)
  show "\<exists>!s. P s"
  proof (rule ex1I[of _ a])
    show "P a" using eq by blast
  next
    fix s assume "P s"
    then show "s = a" using eq by blast
  qed
next
  assume "\<exists>!s. P s"
  then obtain a where "P a" "\<And>s. P s \<Longrightarrow> s = a" by blast
  then have "{s. P s} = {a}" by blast
  then show "card {s. P s} = 1" by simp
qed

lemma pot_load_card:
  assumes "length x = num_vars g" and "i < num_pots g"
  shows "pot_load g x i
    = card {s. s < num_species g \<and> x ! var_index (num_species g) i s = 1}"
proof -
  have "{s. s < num_species g \<and> planted x (var_index (num_species g) i s)}
      = {s. s < num_species g \<and> x ! var_index (num_species g) i s = 1}"
    using planted_var_index[OF assms] by auto
  then show ?thesis by (simp add: pot_load_def length_filter_upt)
qed

lemma species_load_card:
  assumes "length x = num_vars g" and "s < num_species g"
  shows "species_load g x s
    = card {i. i < num_pots g \<and> x ! var_index (num_species g) i s = 1}"
proof -
  have "{i. i < num_pots g \<and> planted x (var_index (num_species g) i s)}
      = {i. i < num_pots g \<and> x ! var_index (num_species g) i s = 1}"
    using planted_var_index[OF assms(1) _ assms(2)] by auto
  then show ?thesis by (simp add: species_load_def length_filter_upt)
qed

lemma is_feasible_iff:
  assumes "length x = num_vars g"
  shows "is_feasible g x \<longleftrightarrow>
     (\<forall>i<num_pots g. \<exists>!s. s < num_species g \<and> x ! var_index (num_species g) i s = 1)
     \<and> (\<forall>s<num_species g.
           card {i. i < num_pots g \<and> x ! var_index (num_species g) i s = 1}
             = species_count g ! s)"
proof -
  have "pot_load g x i = 1
      \<longleftrightarrow> (\<exists>!s. s < num_species g \<and> x ! var_index (num_species g) i s = 1)"
    if "i < num_pots g" for i
    using pot_load_card[OF assms that]
      card_one_iff_ex1[of "\<lambda>s. s < num_species g \<and> x ! var_index (num_species g) i s = 1"]
    by simp
  then have "(\<forall>i<num_pots g. pot_load g x i = 1)
      \<longleftrightarrow> (\<forall>i<num_pots g. \<exists>!s. s < num_species g \<and> x ! var_index (num_species g) i s = 1)"
    by simp
  then have "list_all (\<lambda>i. pot_load g x i = 1) [0..<num_pots g]
      \<longleftrightarrow> (\<forall>i<num_pots g. \<exists>!s. s < num_species g \<and> x ! var_index (num_species g) i s = 1)"
    by (simp add: list_all_iff Ball_def)
  moreover have "list_all (\<lambda>s. species_load g x s = species_count g ! s) [0..<num_species g]
      \<longleftrightarrow> (\<forall>s<num_species g.
           card {i. i < num_pots g \<and> x ! var_index (num_species g) i s = 1}
             = species_count g ! s)"
    by (simp add: list_all_iff Ball_def species_load_card[OF assms])
  ultimately show ?thesis by (simp add: is_feasible_def)
qed

lemma is_feasible_constraints_only:
  "num_pots g' = num_pots g \<Longrightarrow> species_count g' = species_count g \<Longrightarrow>
     is_feasible g' x = is_feasible g x"
  by (simp add: is_feasible_def pot_load_def species_load_def num_species_def)

text \<open>
  Claim C1. For an assignment \<open>x\<close> of length pots times species, \<^verbatim>\<open>is_feasible\<close> holds
  exactly when every pot has exactly one species set and every species \<open>s\<close> is set in
  exactly \<^verbatim>\<open>count[s]\<close> pots. The result is the same for every choice of the size classes
  (which alone feed the shading term), of the weights \<open>\<lambda>\<^sub>1\<close>, \<open>\<lambda>\<^sub>2\<close>, \<open>\<lambda>\<^sub>3\<close> and of the
  objective built from them.
\<close>

theorem is_feasible_exact:
  assumes "length x = num_pots inst * num_species inst"
  shows "(is_feasible inst x \<longleftrightarrow>
      (\<forall>i<num_pots inst. \<exists>!s. s < num_species inst \<and> x ! var_index (num_species inst) i s = 1)
      \<and> (\<forall>s<num_species inst.
            card {i. i < num_pots inst \<and> x ! var_index (num_species inst) i s = 1}
              = species_count inst ! s))
    \<and> is_feasible (inst\<lparr>species_size := sizes, lambda1 := l1, lambda2 := l2, lambda3 := l3,
                       qubo_Q := Q, qubo_c := c, qubo_offset := off\<rparr>) x
        = is_feasible inst x"
proof -
  from assms have len: "length x = num_vars inst"
    by (simp add: num_vars_def)
  have indep: "is_feasible (inst\<lparr>species_size := sizes, lambda1 := l1, lambda2 := l2,
      lambda3 := l3, qubo_Q := Q, qubo_c := c, qubo_offset := off\<rparr>) x = is_feasible inst x"
    by (rule is_feasible_constraints_only) simp_all
  show ?thesis
    by (rule conjI[OF is_feasible_iff[OF len] indep])
qed

theorem is_feasible_exact_witness:
  "length [1, 0 :: int] = num_pots one_pot_instance * num_species one_pot_instance
   \<and> is_feasible one_pot_instance [1, 0]
   \<and> (\<exists>!s. s < num_species one_pot_instance
          \<and> [1, 0 :: int] ! var_index (num_species one_pot_instance) 0 s = 1)
   \<and> card {i. i < num_pots one_pot_instance
              \<and> [1, 0 :: int] ! var_index (num_species one_pot_instance) i 1 = 1}
        = species_count one_pot_instance ! 1
   \<and> is_feasible (one_pot_instance\<lparr>species_size := [3, 1], lambda1 := 5, lambda2 := 7,
         lambda3 := 9, qubo_Q := (\<lambda>i j. 1), qubo_c := (\<lambda>i. 1), qubo_offset := 1\<rparr>) [1, 0]"
proof -
  have len: "length [1, 0 :: int] = num_pots one_pot_instance * num_species one_pot_instance"
    by (simp add: one_pot_instance_def num_species_def)
  have yes: "is_feasible one_pot_instance [1, 0]"
    by (simp add: is_feasible_def pot_load_def species_load_def one_pot_instance_def
        num_species_def planted_def var_index_def)
  have pot: "(0 :: nat) < num_pots one_pot_instance"
    by (simp add: one_pot_instance_def)
  have sp: "(1 :: nat) < num_species one_pot_instance"
    by (simp add: one_pot_instance_def num_species_def)
  note char = is_feasible_exact[OF len, THEN conjunct1, THEN iffD1, OF yes]
  note pots = char[THEN conjunct1, rule_format, OF pot]
  note species = char[THEN conjunct2, rule_format, OF sp]
  note indep = is_feasible_exact[where sizes = "[3, 1]" and ?l1.0 = 5 and ?l2.0 = 7
      and ?l3.0 = 9 and Q = "\<lambda>i j. 1" and c = "\<lambda>i. 1" and off = 1,
      OF len, THEN conjunct2, THEN iffD2, OF yes]
  show ?thesis
    by (rule conjI[OF len conjI[OF yes conjI[OF pots conjI[OF species indep]]]])
qed

text \<open>
  Claim C2. On a vector whose length is pots times species, \<^verbatim>\<open>evaluate_objective\<close>
  returns \<open>x\<^sup>T Q x + c\<^sup>T x + offset\<close>; on a vector of any other length it fails with
  \<^verbatim>\<open>LengthMismatchError\<close>.
\<close>

theorem evaluate_objective_value:
  "(length x = num_pots inst * num_species inst \<longrightarrow>
      evaluate_objective inst x
        = Inr ((\<Sum>i<num_pots inst * num_species inst.
                  \<Sum>j<num_pots inst * num_species inst.
                    real_of_int (x ! i) * qubo_Q inst i j * real_of_int (x ! j))
               + (\<Sum>i<num_pots inst * num_species inst. qubo_c inst i * real_of_int (x ! i))
               + qubo_offset inst))
   \<and> (length x \<noteq> num_pots inst * num_species inst \<longrightarrow>
        evaluate_objective inst x = Inl LengthMismatchError)"
  by (simp add: evaluate_objective_def num_vars_def interv_sum_list_conv_sum_set_nat
      atLeast0LessThan)

theorem evaluate_objective_value_witness:
  "length [1, 1 :: int] = num_pots one_pot_instance * num_species one_pot_instance
   \<and> evaluate_objective one_pot_instance [1, 1] = Inr 2
   \<and> length [1 :: int] \<noteq> num_pots one_pot_instance * num_species one_pot_instance
   \<and> evaluate_objective one_pot_instance [1] = Inl LengthMismatchError"
proof -
  have n: "num_pots one_pot_instance * num_species one_pot_instance = Suc (Suc 0)"
    by (simp add: one_pot_instance_def num_species_def)
  have q: "qubo_Q one_pot_instance = (\<lambda>i j. 2)" "qubo_c one_pot_instance = (\<lambda>i. - 4)"
    "qubo_offset one_pot_instance = 2"
    by (simp_all add: one_pot_instance_def)
  from evaluate_objective_value[of "[1, 1]" one_pot_instance]
  have "evaluate_objective one_pot_instance [1, 1] = Inr 2"
    by (simp add: n q)
  moreover from evaluate_objective_value[of "[1]" one_pot_instance]
  have "evaluate_objective one_pot_instance [1] = Inl LengthMismatchError"
    by (simp add: n)
  ultimately show ?thesis by (simp add: n)
qed


section \<open>Properties of the exhaustive enumeration\<close>

lemma length_bits_lsb: "length (bits_lsb n k) = n"
  by (simp add: bits_lsb_def)

lemma set_bits_lsb: "set (bits_lsb n k) \<subseteq> {0, 1}"
  by (auto simp: bits_lsb_def)

lemma bits_lsb_nth: "i < n \<Longrightarrow> bits_lsb n k ! i = (if bit k i then 1 else 0)"
  by (simp add: bits_lsb_def)

lemma bits_lsb_inj:
  assumes "k < 2 ^ n" and "k' < 2 ^ n" and "bits_lsb n (int k) = bits_lsb n (int k')"
  shows "k = (k' :: nat)"
proof -
  have eq: "bit k i = bit k' i" if "i < n" for i
  proof -
    have "bits_lsb n (int k) ! i = bits_lsb n (int k') ! i"
      using assms(3) by simp
    with that show ?thesis
      by (simp add: bits_lsb_nth bit_of_nat_iff_bit split: if_splits)
  qed
  have "take_bit n k = take_bit n k'"
    by (rule bit_eqI) (auto simp: bit_take_bit_iff eq)
  with assms(1,2) show ?thesis
    by (simp add: take_bit_nat_eq_self)
qed

lemma distinct_all_bits: "distinct (map (\<lambda>k. bits_lsb n (int k)) [0..<2 ^ n])"
  by (auto simp: distinct_map inj_on_def dest: bits_lsb_inj)

lemma card_bit_vectors: "card {x :: int list. set x \<subseteq> {0, 1} \<and> length x = n} = 2 ^ n"
  by (simp add: card_lists_length_eq numeral_2_eq_2)

lemma set_all_bits:
  "set (map (\<lambda>k. bits_lsb n (int k)) [0..<2 ^ n]) = {x. set x \<subseteq> {0, 1} \<and> length x = n}"
proof (rule card_subset_eq)
  show "finite {x :: int list. set x \<subseteq> {0, 1} \<and> length x = n}"
    by (rule finite_lists_length_eq) simp
  show "set (map (\<lambda>k. bits_lsb n (int k)) [0..<2 ^ n]) \<subseteq> {x. set x \<subseteq> {0, 1} \<and> length x = n}"
    using set_bits_lsb by (auto simp: length_bits_lsb)
  have "card (set (map (\<lambda>k. bits_lsb n (int k)) [0..<2 ^ n])) = 2 ^ n"
    using distinct_card[OF distinct_all_bits[of n]] by simp
  then show "card (set (map (\<lambda>k. bits_lsb n (int k)) [0..<2 ^ n]))
      = card {x :: int list. set x \<subseteq> {0, 1} \<and> length x = n}"
    by (simp add: card_bit_vectors)
qed

lemma length_enumerate_all: "length (enumerate_all inst) = 2 ^ num_vars inst"
  by (simp add: enumerate_all_def)

lemma enumerate_all_nth:
  "k < 2 ^ num_vars inst \<Longrightarrow>
     enumerate_all inst ! k = evaluate_candidate inst (bits_lsb (num_vars inst) (int k))"
  by (simp add: enumerate_all_def)

lemma feasible_count_card:
  "length (filter cand_feas (enumerate_all inst))
     = card {x. set x \<subseteq> {0, 1} \<and> length x = num_vars inst \<and> is_feasible inst x}"
proof -
  let ?bits = "\<lambda>k. bits_lsb (num_vars inst) (int k)"
  have "filter cand_feas (enumerate_all inst)
      = map (evaluate_candidate inst) (filter (is_feasible inst) (map ?bits [0..<2 ^ num_vars inst]))"
    by (simp add: enumerate_all_def filter_map comp_def evaluate_candidate_def)
  then have "length (filter cand_feas (enumerate_all inst))
      = length (filter (is_feasible inst) (map ?bits [0..<2 ^ num_vars inst]))"
    by simp
  also have "\<dots> = card ({x. is_feasible inst x} \<inter> set (map ?bits [0..<2 ^ num_vars inst]))"
    by (rule distinct_length_filter) (rule distinct_all_bits)
  also have "{x. is_feasible inst x} \<inter> set (map ?bits [0..<2 ^ num_vars inst])
      = {x. set x \<subseteq> {0, 1} \<and> length x = num_vars inst \<and> is_feasible inst x}"
    unfolding set_all_bits by blast
  finally show ?thesis .
qed


lemma placement_vector_nth:
  assumes "i < length \<sigma>" and "s < n"
  shows "placement_vector n \<sigma> ! (i * n + s) = (if \<sigma> ! i = s then 1 else 0)"
proof -
  have "i * n + s < length \<sigma> * n"
    using var_index_less[OF assms] by (simp add: var_index_def)
  then show ?thesis
    using assms(2) by (simp add: placement_vector_def)
qed

lemma vector_placement_nth:
  assumes "one_each n x" and "i < n"
  shows "vector_placement n x ! i < n \<and> x ! (i * n + vector_placement n x ! i) = 1"
    and "s < n \<Longrightarrow> x ! (i * n + s) = 1 \<Longrightarrow> vector_placement n x ! i = s"
proof -
  from assms have ex: "\<exists>!s. s < n \<and> x ! (i * n + s) = 1"
    by (simp add: one_each_def)
  have v: "vector_placement n x ! i = (THE s. s < n \<and> x ! (i * n + s) = 1)"
    using assms(2) by (simp add: vector_placement_def)
  from theI'[OF ex] v show "vector_placement n x ! i < n \<and> x ! (i * n + vector_placement n x ! i) = 1"
    by simp
  show "vector_placement n x ! i = s" if "s < n" "x ! (i * n + s) = 1"
    unfolding v using ex that by (intro the1_equality) auto
qed

lemma placement_of_vector:
  assumes "length \<sigma> = n" and "set \<sigma> \<subseteq> {..<n}"
  shows "vector_placement n (placement_vector n \<sigma>) = \<sigma>"
proof (rule nth_equalityI)
  show "length (vector_placement n (placement_vector n \<sigma>)) = length \<sigma>"
    using assms(1) by (simp add: vector_placement_def)
next
  fix i assume "i < length (vector_placement n (placement_vector n \<sigma>))"
  then have i: "i < n" by (simp add: vector_placement_def)
  then have si: "\<sigma> ! i < n" using assms by (auto simp: subset_iff)
  have "(THE s. s < n \<and> placement_vector n \<sigma> ! (i * n + s) = 1) = \<sigma> ! i"
  proof (rule the_equality)
    show "\<sigma> ! i < n \<and> placement_vector n \<sigma> ! (i * n + \<sigma> ! i) = 1"
      using si i assms(1) by (simp add: placement_vector_nth)
  next
    fix s assume "s < n \<and> placement_vector n \<sigma> ! (i * n + s) = 1"
    then show "s = \<sigma> ! i"
      using i assms(1) by (auto simp: placement_vector_nth split: if_splits)
  qed
  then show "vector_placement n (placement_vector n \<sigma>) ! i = \<sigma> ! i"
    using i by (simp add: vector_placement_def)
qed

lemma vector_of_placement:
  assumes "length x = n * n" and "set x \<subseteq> {0, 1}" and "one_each n x"
  shows "placement_vector n (vector_placement n x) = x"
proof (rule nth_equalityI)
  show len: "length (placement_vector n (vector_placement n x)) = length x"
    using assms(1) by (simp add: placement_vector_def vector_placement_def)
next
  fix k assume "k < length (placement_vector n (vector_placement n x))"
  then have k: "k < n * n"
    by (simp add: placement_vector_def vector_placement_def)
  then have n: "0 < n" by (cases n) simp_all
  define i where "i = k div n"
  define s where "s = k mod n"
  have i: "i < n" unfolding i_def using k n by (simp add: less_mult_imp_div_less)
  have s: "s < n" unfolding s_def using n by simp
  have ks: "k = i * n + s" unfolding i_def s_def by simp
  have bin: "x ! k = 0 \<or> x ! k = 1"
    using assms(1,2) k by (metis insert_iff nth_mem singletonD subsetD)
  have "placement_vector n (vector_placement n x) ! (i * n + s)
      = (if vector_placement n x ! i = s then 1 else 0)"
    using i s by (intro placement_vector_nth) (simp_all add: vector_placement_def)
  also have "\<dots> = x ! (i * n + s)"
  proof (cases "x ! (i * n + s) = 1")
    case True
    with vector_placement_nth(2)[OF assms(3) i s] show ?thesis by simp
  next
    case False
    with vector_placement_nth(1)[OF assms(3) i] have "vector_placement n x ! i \<noteq> s"
      by auto
    with False bin ks show ?thesis by simp
  qed
  finally show "placement_vector n (vector_placement n x) ! k = x ! k"
    using ks by simp
qed

lemma placement_vector_one_each:
  assumes "length \<sigma> = n" and "distinct \<sigma>" and "set \<sigma> \<subseteq> {..<n}"
  shows "one_each n (placement_vector n \<sigma>)"
proof -
  have full: "set \<sigma> = {..<n}"
  proof (rule card_subset_eq)
    show "card (set \<sigma>) = card {..<n}"
      using distinct_card[OF assms(2)] assms(1) by simp
  qed (use assms(3) in simp_all)
  have pots: "\<exists>!s. s < n \<and> placement_vector n \<sigma> ! (i * n + s) = 1" if "i < n" for i
  proof (rule ex1I[of _ "\<sigma> ! i"])
    have "\<sigma> ! i < n" using that assms(1,3) by (auto simp: subset_iff)
    then show "\<sigma> ! i < n \<and> placement_vector n \<sigma> ! (i * n + \<sigma> ! i) = 1"
      using that assms(1) by (simp add: placement_vector_nth)
  next
    fix s assume "s < n \<and> placement_vector n \<sigma> ! (i * n + s) = 1"
    then show "s = \<sigma> ! i"
      using that assms(1) by (auto simp: placement_vector_nth split: if_splits)
  qed
  have species: "card {i. i < n \<and> placement_vector n \<sigma> ! (i * n + s) = 1} = 1"
    if "s < n" for s
  proof -
    from that full have "s \<in> set \<sigma>" by simp
    then obtain i where i: "i < n" "\<sigma> ! i = s"
      using assms(1) by (auto simp: in_set_conv_nth)
    have "{i. i < n \<and> placement_vector n \<sigma> ! (i * n + s) = 1} = {i. i < n \<and> \<sigma> ! i = s}"
      using that assms(1) by (auto simp: placement_vector_nth split: if_splits)
    also have "\<dots> = {i}"
      using i assms(1,2) by (auto simp: nth_eq_iff_index_eq)
    finally show ?thesis by simp
  qed
  from pots species show ?thesis by (simp add: one_each_def)
qed

lemma vector_placement_distinct:
  assumes "one_each n x"
  shows "length (vector_placement n x) = n" and "distinct (vector_placement n x)"
    and "set (vector_placement n x) \<subseteq> {..<n}"
proof -
  show len: "length (vector_placement n x) = n"
    by (simp add: vector_placement_def)
  show "set (vector_placement n x) \<subseteq> {..<n}"
  proof
    fix s assume "s \<in> set (vector_placement n x)"
    then obtain i where "i < n" "s = vector_placement n x ! i"
      using len by (metis in_set_conv_nth)
    with vector_placement_nth(1)[OF assms] show "s \<in> {..<n}" by simp
  qed
  show "distinct (vector_placement n x)"
    unfolding distinct_conv_nth
  proof (intro allI impI)
    fix i j
    assume "i < length (vector_placement n x)" "j < length (vector_placement n x)" "i \<noteq> j"
    then have i: "i < n" and j: "j < n" using len by simp_all
    show "vector_placement n x ! i \<noteq> vector_placement n x ! j"
    proof
      assume eq: "vector_placement n x ! i = vector_placement n x ! j"
      define s where "s = vector_placement n x ! i"
      have si: "s < n" "x ! (i * n + s) = 1"
        using vector_placement_nth(1)[OF assms i] by (simp_all add: s_def)
      have sj: "x ! (j * n + s) = 1"
        using vector_placement_nth(1)[OF assms j] eq by (simp add: s_def)
      from assms si(1) have "card {i. i < n \<and> x ! (i * n + s) = 1} = 1"
        by (simp add: one_each_def)
      then obtain a where a: "{i. i < n \<and> x ! (i * n + s) = 1} = {a}"
        by (auto simp: card_1_singleton_iff)
      have "i \<in> {i. i < n \<and> x ! (i * n + s) = 1}" using i si by simp
      then have "i = a" unfolding a by simp
      moreover have "j \<in> {i. i < n \<and> x ! (i * n + s) = 1}" using j sj by simp
      then have "j = a" unfolding a by simp
      ultimately have "i = j" by simp
      with \<open>i \<noteq> j\<close> show False by simp
    qed
  qed
qed

lemma card_one_each:
  "card {x. set x \<subseteq> {0, 1} \<and> length x = n * n \<and> one_each n x} = fact n"
proof -
  let ?F = "{x. set x \<subseteq> {0, 1} \<and> length x = n * n \<and> one_each n x}"
  let ?D = "{\<sigma>. length \<sigma> = n \<and> distinct \<sigma> \<and> set \<sigma> \<subseteq> {..<n}}"
  have "bij_betw (vector_placement n) ?F ?D"
  proof (rule bij_betw_byWitness[where f' = "placement_vector n"])
    show "\<forall>x\<in>?F. placement_vector n (vector_placement n x) = x"
      by (simp add: vector_of_placement)
    show "\<forall>\<sigma>\<in>?D. vector_placement n (placement_vector n \<sigma>) = \<sigma>"
      by (simp add: placement_of_vector)
    show "vector_placement n ` ?F \<subseteq> ?D"
      using vector_placement_distinct by blast
    show "placement_vector n ` ?D \<subseteq> ?F"
    proof
      fix x assume "x \<in> placement_vector n ` ?D"
      then obtain \<sigma> where \<sigma>: "length \<sigma> = n" "distinct \<sigma>" "set \<sigma> \<subseteq> {..<n}"
        and x: "x = placement_vector n \<sigma>" by blast
      have "set x \<subseteq> {0, 1}" "length x = n * n"
        using \<sigma>(1) by (auto simp: x placement_vector_def)
      with placement_vector_one_each[OF \<sigma>] x show "x \<in> ?F" by simp
    qed
  qed
  then have "card ?F = card ?D" by (rule bij_betw_same_card)
  also have "\<dots> = \<Prod>{card {..<n} - n + 1..card {..<n}}"
    by (rule card_lists_distinct_length_eq) simp_all
  also have "\<dots> = fact n"
    by (simp add: fact_prod)
  finally show ?thesis .
qed

lemma is_feasible_square:
  assumes "num_pots g = n" and "species_count g = replicate n 1" and "length x = n * n"
  shows "is_feasible g x \<longleftrightarrow> one_each n x"
proof -
  have S: "num_species g = n" using assms(2) by (simp add: num_species_def)
  have len: "length x = num_vars g" using assms(1,3) S by (simp add: num_vars_def)
  show ?thesis
    unfolding is_feasible_iff[OF len] one_each_def S assms(1) var_index_def
    using assms(2) by simp
qed

lemma feasible_count_square:
  assumes "num_pots inst = n" and "species_count inst = replicate n 1"
  shows "length (filter cand_feas (enumerate_all inst)) = fact n"
proof -
  have N: "num_vars inst = n * n"
    using assms by (simp add: num_vars_def num_species_def)
  have "{x. set x \<subseteq> {0, 1} \<and> length x = num_vars inst \<and> is_feasible inst x}
      = {x. set x \<subseteq> {0, 1} \<and> length x = n * n \<and> one_each n x}"
    using is_feasible_square[OF assms] N by auto
  then show ?thesis
    by (simp add: feasible_count_card card_one_each)
qed

lemma one_each_placements:
  "{x. set x \<subseteq> {0, 1} \<and> length x = n * n \<and> one_each n x}
     = placement_vector n ` {\<sigma>. length \<sigma> = n \<and> distinct \<sigma> \<and> set \<sigma> \<subseteq> {..<n}}"
proof (intro equalityI subsetI)
  fix x assume "x \<in> {x. set x \<subseteq> {0, 1} \<and> length x = n * n \<and> one_each n x}"
  then have x: "set x \<subseteq> {0, 1}" "length x = n * n" "one_each n x" by simp_all
  have "x = placement_vector n (vector_placement n x)"
    using vector_of_placement[OF x(2,1,3)] by simp
  moreover have "vector_placement n x \<in> {\<sigma>. length \<sigma> = n \<and> distinct \<sigma> \<and> set \<sigma> \<subseteq> {..<n}}"
    using vector_placement_distinct[OF x(3)] by simp
  ultimately show "x \<in> placement_vector n ` {\<sigma>. length \<sigma> = n \<and> distinct \<sigma> \<and> set \<sigma> \<subseteq> {..<n}}"
    by (rule image_eqI)
next
  fix x assume "x \<in> placement_vector n ` {\<sigma>. length \<sigma> = n \<and> distinct \<sigma> \<and> set \<sigma> \<subseteq> {..<n}}"
  then obtain \<sigma> where \<sigma>: "length \<sigma> = n" "distinct \<sigma>" "set \<sigma> \<subseteq> {..<n}"
    and x: "x = placement_vector n \<sigma>" by blast
  have "set x \<subseteq> {0, 1}" "length x = n * n"
    using \<sigma>(1) by (auto simp: x placement_vector_def)
  with placement_vector_one_each[OF \<sigma>] x
  show "x \<in> {x. set x \<subseteq> {0, 1} \<and> length x = n * n \<and> one_each n x}" by simp
qed

lemma feasible_set_square:
  assumes "num_pots inst = n" and "species_count inst = replicate n 1"
  shows "set (map cand_x (filter cand_feas (enumerate_all inst)))
    = placement_vector n ` {\<sigma>. length \<sigma> = n \<and> distinct \<sigma> \<and> set \<sigma> \<subseteq> {..<n}}"
proof -
  have N: "num_vars inst = n * n"
    using assms by (simp add: num_vars_def num_species_def)
  let ?bits = "\<lambda>k. bits_lsb (num_vars inst) (int k)"
  have "map cand_x (filter cand_feas (enumerate_all inst))
      = filter (is_feasible inst) (map ?bits [0..<2 ^ num_vars inst])"
    by (simp add: enumerate_all_def filter_map comp_def evaluate_candidate_def)
  then have "set (map cand_x (filter cand_feas (enumerate_all inst)))
      = set (filter (is_feasible inst) (map ?bits [0..<2 ^ num_vars inst]))"
    by simp
  also have "\<dots> = {x. set x \<subseteq> {0, 1} \<and> length x = num_vars inst \<and> is_feasible inst x}"
    unfolding set_filter set_all_bits by blast
  also have "\<dots> = {x. set x \<subseteq> {0, 1} \<and> length x = n * n \<and> one_each n x}"
    using is_feasible_square[OF assms] N by auto
  finally show ?thesis by (simp add: one_each_placements)
qed

lemma grid_2x2_square:
  "grid_2x2 inst \<Longrightarrow> num_pots inst = 4 \<and> species_count inst = replicate 4 1"
  by (simp add: grid_2x2_def numeral_eq_Suc)

lemma fact_4: "fact 4 = (24 :: nat)"
  by (simp add: fact_numeral)

text \<open>
  Claim C4. \<^verbatim>\<open>enumerate_all\<close> yields exactly \<open>2 ^ (pots * species)\<close> candidates; candidate
  \<open>k\<close> is the integer \<open>k\<close> written in binary with bit \<open>i\<close> at variable index \<open>i\<close>, with its
  objective and feasibility; no assignment occurs twice. For the 2 by 2 grid with four
  species, each required once, the feasible candidates among the 65536 are exactly the
  vectors of the arrangements of the four species on the four pots, and there are 24.
\<close>

theorem enumerate_all_exhaustive:
  "length (enumerate_all inst) = 2 ^ (num_pots inst * num_species inst)
   \<and> (\<forall>k<2 ^ (num_pots inst * num_species inst).
         length (cand_x (enumerate_all inst ! k)) = num_pots inst * num_species inst
       \<and> (\<forall>i<num_pots inst * num_species inst.
            cand_x (enumerate_all inst ! k) ! i = (if bit k i then 1 else 0))
       \<and> cand_obj (enumerate_all inst ! k)
           = evaluate_objective inst (cand_x (enumerate_all inst ! k))
       \<and> (\<exists>v. cand_obj (enumerate_all inst ! k) = Inr v)
       \<and> cand_feas (enumerate_all inst ! k)
           = is_feasible inst (cand_x (enumerate_all inst ! k)))
   \<and> distinct (map cand_x (enumerate_all inst))
   \<and> (grid_2x2 inst \<longrightarrow>
         length (enumerate_all inst) = 65536
       \<and> length (filter cand_feas (enumerate_all inst)) = 24
       \<and> set (map cand_x (filter cand_feas (enumerate_all inst)))
           = placement_vector 4 ` {\<sigma>. length \<sigma> = 4 \<and> distinct \<sigma> \<and> set \<sigma> \<subseteq> {..<4}})"
proof -
  have len: "length (enumerate_all inst) = 2 ^ (num_pots inst * num_species inst)"
    by (simp add: length_enumerate_all num_vars_def)
  have each: "length (cand_x (enumerate_all inst ! k)) = num_pots inst * num_species inst
       \<and> (\<forall>i<num_pots inst * num_species inst.
            cand_x (enumerate_all inst ! k) ! i = (if bit k i then 1 else 0))
       \<and> cand_obj (enumerate_all inst ! k)
           = evaluate_objective inst (cand_x (enumerate_all inst ! k))
       \<and> (\<exists>v. cand_obj (enumerate_all inst ! k) = Inr v)
       \<and> cand_feas (enumerate_all inst ! k)
           = is_feasible inst (cand_x (enumerate_all inst ! k))"
    if "k < 2 ^ (num_pots inst * num_species inst)" for k
  proof -
    from that have "k < 2 ^ num_vars inst" by (simp add: num_vars_def)
    then have "enumerate_all inst ! k
        = evaluate_candidate inst (bits_lsb (num_vars inst) (int k))"
      by (rule enumerate_all_nth)
    then show ?thesis
      by (simp add: evaluate_candidate_def evaluate_objective_def length_bits_lsb
          bits_lsb_nth bit_of_nat_iff_bit num_vars_def)
  qed
  have "map cand_x (enumerate_all inst)
      = map (\<lambda>k. bits_lsb (num_vars inst) (int k)) [0..<2 ^ num_vars inst]"
    by (simp add: enumerate_all_def evaluate_candidate_def comp_def)
  then have dist: "distinct (map cand_x (enumerate_all inst))"
    by (simp add: distinct_all_bits)
  have grid: "length (enumerate_all inst) = 65536
       \<and> length (filter cand_feas (enumerate_all inst)) = 24
       \<and> set (map cand_x (filter cand_feas (enumerate_all inst)))
           = placement_vector 4 ` {\<sigma>. length \<sigma> = 4 \<and> distinct \<sigma> \<and> set \<sigma> \<subseteq> {..<4}}"
    if "grid_2x2 inst"
  proof -
    from grid_2x2_square[OF that] have sq: "num_pots inst = 4"
      "species_count inst = replicate 4 1" by simp_all
    have "num_vars inst = 16"
      using sq by (simp add: num_vars_def num_species_def)
    then have "length (enumerate_all inst) = 65536"
      by (simp add: length_enumerate_all)
    moreover have "length (filter cand_feas (enumerate_all inst)) = 24"
      using feasible_count_square[OF sq] by (simp add: fact_4)
    ultimately show ?thesis
      using feasible_set_square[OF sq] by blast
  qed
  from len each dist grid show ?thesis by blast
qed

theorem enumerate_all_exhaustive_witness:
  "grid_2x2 notebook_instance
   \<and> (5 :: nat) < 2 ^ (num_pots notebook_instance * num_species notebook_instance)
   \<and> length (enumerate_all notebook_instance) = 65536
   \<and> length (filter cand_feas (enumerate_all notebook_instance)) = 24
   \<and> cand_x (enumerate_all notebook_instance ! 5) ! 2 = 1"
proof -
  have g: "grid_2x2 notebook_instance"
    by (simp add: grid_2x2_def notebook_instance_def)
  have n: "num_pots notebook_instance * num_species notebook_instance = 16"
    by (simp add: notebook_instance_def num_species_def)
  have k: "(5 :: nat) < 2 ^ (num_pots notebook_instance * num_species notebook_instance)"
    unfolding n by simp
  have i: "(2 :: nat) < num_pots notebook_instance * num_species notebook_instance"
    unfolding n by simp
  note th = enumerate_all_exhaustive[of notebook_instance]
  from th g have c: "length (enumerate_all notebook_instance) = 65536"
    "length (filter cand_feas (enumerate_all notebook_instance)) = 24"
    by blast+
  from th k i have "cand_x (enumerate_all notebook_instance ! 5) ! 2
      = (if bit (5 :: nat) 2 then 1 else 0)"
    by blast
  then have "cand_x (enumerate_all notebook_instance ! 5) ! 2 = 1"
    by (simp add: bit_numeral_simps bit_0)
  with g k c show ?thesis by blast
qed


end
